theory Spec2Isabelle
  imports Complex_Main "HOL-Library.Log_Nat" "HOL-Library.Sublist"
begin

section \<open>Data model\<close>

text \<open>
  The script \<^verbatim>\<open>app.py\<close> works on pandas data frames. A frame is modelled column by
  column, in column order: a list of pairs of a column label and the cells of that column
  in row order. All columns of a frame read from a sheet have the same number of cells.

  A cell of the sheet is a text, a number or blank (pandas reads a blank cell as NaN).
  A cell of the numeric frame is a float64, modelled by the rational number it denotes,
  or NaN, modelled by \<open>None\<close>.
\<close>

type_synonym 'a frame = "(string \<times> 'a list) list"

datatype cell = Text string | Num rat | Blank

text \<open>\<^verbatim>\<open>SKOR_MAP\<close> and \<^verbatim>\<open>URUTAN_SKALA\<close>, lines 36 and 37.\<close>

definition SKOR_MAP :: "string \<Rightarrow> int option" where
  "SKOR_MAP = map_of [(''SS'', 6), (''S'', 5), (''CS'', 4), (''CTS'', 3), (''TS'', 2), (''STS'', 1)]"

definition URUTAN_SKALA :: "string list" where
  "URUTAN_SKALA = [''SS'', ''S'', ''CS'', ''CTS'', ''TS'', ''STS'']"

section \<open>Loading the data\<close>

text \<open>
  \<^verbatim>\<open>df.replace(SKOR_MAP)\<close> on one cell: a cell equal to a key of the dictionary is
  replaced by the number bound to it, every other cell is left as it is.
\<close>

fun replace_cell :: "cell \<Rightarrow> cell" where
  "replace_cell (Text s) = (case SKOR_MAP s of Some k \<Rightarrow> Num (of_int k) | None \<Rightarrow> Text s)"
| "replace_cell (Num r) = Num r"
| "replace_cell Blank = Blank"

text \<open>
  \<^verbatim>\<open>pd.to_numeric(..., errors='coerce')\<close> on one cell: a number stays, a blank is NaN,
  and a text becomes the number pandas reads it as, or NaN when pandas cannot read it as
  a number. How pandas reads a text as a number is not part of this repository; it is the
  parameter \<open>num_of_text\<close>. (A text that pandas reads as an infinity has no
  counterpart here.)
\<close>

fun to_numeric :: "(string \<Rightarrow> rat option) \<Rightarrow> cell \<Rightarrow> rat option" where
  "to_numeric num_of_text (Text s) = num_of_text s"
| "to_numeric num_of_text (Num r) = Some r"
| "to_numeric num_of_text Blank = None"

text \<open>
  One instance of the parameter, used in the examples: a non-empty text of decimal digits
  is read as the natural number it writes. (pandas reads more texts as numbers than these.)
\<close>

definition is_digit :: "char \<Rightarrow> bool" where
  "is_digit c = (48 \<le> (of_char c :: nat) \<and> (of_char c :: nat) \<le> 57)"

definition decimal_text :: "string \<Rightarrow> rat option" where
  "decimal_text s =
     (if s \<noteq> [] \<and> list_all is_digit s
      then Some (of_nat (foldl (\<lambda>a c. 10 * a + (of_char c - 48)) 0 s))
      else None)"

text \<open>
  What the script can find at \<^verbatim>\<open>DATA_FILE\<close>: no file, or a file on which
  \<^verbatim>\<open>pd.read_excel\<close> raises \<^verbatim>\<open>ImportError\<close> (no openpyxl), raises another exception
  (with its text), or returns a frame.
\<close>

datatype read_excel = Raises_ImportError | Raises_Exception string | Returns "cell frame"

datatype data_file = No_file | File read_excel

text \<open>The messages the script shows: the three \<^verbatim>\<open>st.error\<close> of \<^verbatim>\<open>muat_data\<close> and the
  \<^verbatim>\<open>st.warning\<close> of line 92.\<close>

datatype message =
    Error_file_tidak_ditemukan
  | Error_openpyxl_belum_terinstall
  | Error_gagal_memuat_data string
  | Warning_data_kosong

definition drop_Partisipan :: "'a frame \<Rightarrow> 'a frame" where
  "drop_Partisipan df =
     (if ''Partisipan'' \<in> set (map fst df) then filter (\<lambda>c. fst c \<noteq> ''Partisipan'') df else df)"

definition numeric_frame :: "(string \<Rightarrow> rat option) \<Rightarrow> cell frame \<Rightarrow> rat option frame" where
  "numeric_frame num_of_text df =
     map (\<lambda>c. (fst c, map (to_numeric num_of_text) (map replace_cell (snd c)))) df"

text \<open>
  \<^verbatim>\<open>muat_data\<close>, lines 53 to 85. The result is the list of messages shown and either
  \<open>None\<close>, when \<^verbatim>\<open>st.stop()\<close> ended the script inside the function, or the pair
  \<^verbatim>\<open>(df, df_numeric)\<close> returned. After an exception both frames are \<^verbatim>\<open>pd.DataFrame()\<close>,
  the frame with no column.
\<close>

definition muat_data ::
  "(string \<Rightarrow> rat option) \<Rightarrow> data_file \<Rightarrow> message list \<times> (cell frame \<times> rat option frame) option" where
  "muat_data num_of_text f =
     (case f of
        No_file \<Rightarrow> ([Error_file_tidak_ditemukan], None)
      | File r \<Rightarrow>
          (case r of
             Returns df0 \<Rightarrow>
               (let df = drop_Partisipan df0;
                    df_numeric = numeric_frame num_of_text df
                in ([], Some (df, df_numeric)))
           | Raises_ImportError \<Rightarrow> ([Error_openpyxl_belum_terinstall], Some ([], []))
           | Raises_Exception e \<Rightarrow> ([Error_gagal_memuat_data e], Some ([], []))))"

text \<open>
  \<^verbatim>\<open>df.empty\<close>: a frame is empty when one of its axes has length 0, that is when it has
  no column or no row.
\<close>

definition nrows :: "'a frame \<Rightarrow> nat" where
  "nrows df = (case df of [] \<Rightarrow> 0 | c # _ \<Rightarrow> length (snd c))"

definition df_empty :: "'a frame \<Rightarrow> bool" where
  "df_empty df = (df = [] \<or> nrows df = 0)"

text \<open>
  Lines 88 to 93: the script loads the data and stops with a warning when the frame is
  empty. \<open>Halted\<close> carries the messages shown before the script stopped; \<open>Loaded\<close>
  carries the messages and the two frames the rest of the script works on.
\<close>

datatype run = Halted "message list" | Loaded "message list" "cell frame" "rat option frame"

definition load_data :: "(string \<Rightarrow> rat option) \<Rightarrow> data_file \<Rightarrow> run" where
  "load_data num_of_text f =
     (case muat_data num_of_text f of
        (ms, None) \<Rightarrow> Halted ms
      | (ms, Some (df, df_numeric)) \<Rightarrow>
          if df_empty df then Halted (ms @ [Warning_data_kosong]) else Loaded ms df df_numeric)"

section \<open>The sidebar filter\<close>




section \<open>Counting answers\<close>

text \<open>
  \<^verbatim>\<open>df_display.values.flatten()\<close> lists the cells row by row. Line 195 keeps the cells
  that are in \<^verbatim>\<open>URUTAN_SKALA\<close>; a number or a blank is equal to no text.
\<close>

definition values_flatten :: "'a frame \<Rightarrow> 'a list" where
  "values_flatten df = concat (transpose (map snd df))"

fun in_URUTAN_SKALA :: "cell \<Rightarrow> bool" where
  "in_URUTAN_SKALA (Text s) = (s \<in> set URUTAN_SKALA)"
| "in_URUTAN_SKALA (Num r) = False"
| "in_URUTAN_SKALA Blank = False"

definition all_vals :: "cell frame \<Rightarrow> cell list" where
  "all_vals df = filter in_URUTAN_SKALA (values_flatten df)"

text \<open>
  \<^verbatim>\<open>value_counts()\<close> has an entry for each distinct element, with the number of its
  occurrences; \<^verbatim>\<open>reindex\<close> lists the entries of the given labels, NaN (\<open>None\<close>) for a
  label with no entry; \<^verbatim>\<open>fillna(0)\<close> puts 0 for NaN.
\<close>

definition value_counts :: "cell list \<Rightarrow> cell \<Rightarrow> nat option" where
  "value_counts xs v = (if v \<in> set xs then Some (count_list xs v) else None)"

definition reindex :: "(cell \<Rightarrow> nat option) \<Rightarrow> string list \<Rightarrow> (string \<times> nat option) list" where
  "reindex s labels = map (\<lambda>k. (k, s (Text k))) labels"

definition fillna0 :: "(string \<times> nat option) list \<Rightarrow> (string \<times> nat) list" where
  "fillna0 s = map (\<lambda>e. (fst e, case snd e of None \<Rightarrow> 0 | Some n \<Rightarrow> n)) s"

definition dist_global :: "cell frame \<Rightarrow> (string \<times> nat) list" where
  "dist_global df_display = fillna0 (reindex (value_counts (all_vals df_display)) URUTAN_SKALA)"

text \<open>\<^verbatim>\<open>hitung_kategori\<close>, lines 332 to 336, where \<^verbatim>\<open>(row == s).sum()\<close> is the number of
  cells of the column equal to the text \<open>s\<close>, and line 338, which applies it to every
  column.\<close>

definition eq_sum :: "cell list \<Rightarrow> string \<Rightarrow> nat" where
  "eq_sum row s = length (filter (\<lambda>c. c = Text s) row)"

definition hitung_kategori :: "cell list \<Rightarrow> nat \<times> nat \<times> nat" where
  "hitung_kategori row =
     (let pos = eq_sum row ''SS'' + eq_sum row ''S'';
          neu = eq_sum row ''CS'';
          neg = eq_sum row ''CTS'' + eq_sum row ''TS'' + eq_sum row ''STS''
      in (pos, neu, neg))"

definition cat_per_q :: "cell frame \<Rightarrow> (string \<times> nat \<times> nat \<times> nat) list" where
  "cat_per_q df_display = map (\<lambda>c. (fst c, hitung_kategori (snd c))) df_display"

section \<open>Float arithmetic\<close>

text \<open>
  Divisions and multiplications of the script are float64 operations: the exact result is
  rounded to the nearest double, a tie to the one with an even significand. \<open>float64 x\<close>
  is that double, as a rational number: \<open>ilog2 \<bar>x\<bar>\<close> is the exponent of \<open>x\<close>, the
  significand has 53 bits, so the doubles around \<open>x\<close> are the multiples of
  \<open>2 powi (ilog2 \<bar>x\<bar> - 52)\<close>. The exponent is not bounded: the numbers of this script
  (scores, counts of cells, their quotients and percentages) are far from the overflow and
  underflow of a double. The counts of cells are integers below \<open>2 ^ 53\<close>, which
  float64 holds exactly.
\<close>

definition round_even :: "rat \<Rightarrow> int" where
  "round_even x =
     (let n = \<lfloor>x\<rfloor>; r = x - of_int n
      in if r < 1 / 2 then n else if 1 / 2 < r then n + 1 else if even n then n else n + 1)"

definition ilog2 :: "rat \<Rightarrow> int" where
  "ilog2 y =
     (let (p, q) = quotient_of y; d = bitlen p - bitlen q
      in if 2 powi d \<le> y then d else d - 1)"

definition float64 :: "rat \<Rightarrow> rat" where
  "float64 x =
     (if x = 0 then 0
      else let u = 2 powi (ilog2 \<bar>x\<bar> - 52) in of_int (round_even (x / u)) * u)"

definition fdiv :: "rat \<Rightarrow> rat \<Rightarrow> rat" where
  "fdiv x y = float64 (x / y)"

definition fmul :: "rat \<Rightarrow> rat \<Rightarrow> rat" where
  "fmul x y = float64 (x * y)"

section \<open>Mean scores\<close>












section \<open>Sentiment percentages\<close>

text \<open>
  Lines 344 to 350, for one question: the total of the three counts, with 1 put for a
  total of 0, and the three counts divided by it and multiplied by 100.
\<close>

definition replace_0_1 :: "nat \<Rightarrow> nat" where
  "replace_0_1 n = (if n = 0 then 1 else n)"

definition pct :: "nat \<times> nat \<times> nat \<Rightarrow> rat \<times> rat \<times> rat" where
  "pct k =
     (case k of (pos, neu, neg) \<Rightarrow>
        (let total = replace_0_1 (pos + neu + neg)
         in (fmul (fdiv (of_nat pos) (of_nat total)) 100,
             fmul (fdiv (of_nat neu) (of_nat total)) 100,
             fmul (fdiv (of_nat neg) (of_nat total)) 100)))"


section \<open>The scale\<close>

lemma SKOR_MAP_None: "SKOR_MAP s = None \<longleftrightarrow> s \<notin> set URUTAN_SKALA"
  by (auto simp: SKOR_MAP_def URUTAN_SKALA_def split: if_splits)

lemma in_URUTAN_SKALA_iff:
  "in_URUTAN_SKALA c \<longleftrightarrow>
     (c = Text ''SS'' \<or> c = Text ''S'') \<or> c = Text ''CS'' \<or>
     (c = Text ''CTS'' \<or> c = Text ''TS'' \<or> c = Text ''STS'')"
  by (cases c) (auto simp: URUTAN_SKALA_def)

section \<open>Sentiment counts\<close>

lemma length_filter_disj:
  "(\<And>x. \<not> (P x \<and> Q x)) \<Longrightarrow>
   length (filter (\<lambda>x. P x \<or> Q x) xs) = length (filter P xs) + length (filter Q xs)"
  by (induction xs) auto

lemma eq_sum_total:
  "eq_sum row ''SS'' + eq_sum row ''S'' + eq_sum row ''CS'' +
     (eq_sum row ''CTS'' + eq_sum row ''TS'' + eq_sum row ''STS'') =
   length (filter in_URUTAN_SKALA row)"
  by (induction row) (auto simp: eq_sum_def in_URUTAN_SKALA_iff)

lemma eq_sum_filter_valid:
  "s \<in> set URUTAN_SKALA \<Longrightarrow> eq_sum (filter in_URUTAN_SKALA row) s = eq_sum row s"
  by (induction row) (auto simp: eq_sum_def)

lemma length_filter_eq_length_iff: "length (filter P xs) = length xs \<longleftrightarrow> list_all P xs"
proof (induction xs)
  case Nil
  show ?case by simp
next
  case (Cons x xs)
  show ?case
    using Cons length_filter_le [of P xs] by (auto simp del: length_filter_le)
qed

text \<open>
  C3. For every column, \<^verbatim>\<open>hitung_kategori\<close> gives the triple of the number of cells equal
  to SS or S, the number equal to CS and the number equal to CTS, TS or STS. The three
  numbers add up to the number of cells of the column that are in the scale, which is at
  most the number of cells, and equal to it exactly when every cell is in the scale. The
  cells outside the scale contribute to no bucket: dropping them changes nothing. The
  script maps every question to this triple.
\<close>

theorem hitung_kategori_buckets:
  "hitung_kategori row =
     (length (filter (\<lambda>c. c = Text ''SS'' \<or> c = Text ''S'') row),
      length (filter (\<lambda>c. c = Text ''CS'') row),
      length (filter (\<lambda>c. c = Text ''CTS'' \<or> c = Text ''TS'' \<or> c = Text ''STS'') row))
   \<and> (case hitung_kategori row of (pos, neu, neg) \<Rightarrow>
        pos + neu + neg = length (filter in_URUTAN_SKALA row)
        \<and> pos + neu + neg \<le> length row
        \<and> (pos + neu + neg = length row \<longleftrightarrow> list_all in_URUTAN_SKALA row))
   \<and> hitung_kategori (filter in_URUTAN_SKALA row) = hitung_kategori row
   \<and> cat_per_q df = map (\<lambda>c. (fst c, hitung_kategori (snd c))) df"
proof -
  have a: "length (filter (\<lambda>c. c = Text ''SS'' \<or> c = Text ''S'') row) =
      eq_sum row ''SS'' + eq_sum row ''S''"
    unfolding eq_sum_def by (rule length_filter_disj) auto
  have b: "length (filter (\<lambda>c. c = Text ''CTS'' \<or> c = Text ''TS'' \<or> c = Text ''STS'') row) =
      eq_sum row ''CTS'' + eq_sum row ''TS'' + eq_sum row ''STS''"
    by (induction row) (auto simp: eq_sum_def)
  have t: "eq_sum row ''SS'' + eq_sum row ''S'' + eq_sum row ''CS'' +
     (eq_sum row ''CTS'' + eq_sum row ''TS'' + eq_sum row ''STS'') =
     length (filter in_URUTAN_SKALA row)"
    by (rule eq_sum_total)
  have le: "length (filter in_URUTAN_SKALA row) \<le> length row" by simp
  have f: "hitung_kategori (filter in_URUTAN_SKALA row) = hitung_kategori row"
    by (simp add: hitung_kategori_def eq_sum_filter_valid URUTAN_SKALA_def)
  show ?thesis
    using t le f
    by (simp add: hitung_kategori_def a b eq_sum_def[symmetric] cat_per_q_def
        length_filter_eq_length_iff[symmetric] del: length_filter_le)
qed

section \<open>Global distribution\<close>

lemma length_filter_heads_tails:
  "length (filter P (concat (map (case_list [] (\<lambda>h t. [h])) xss))) +
   length (filter P (concat (concat (map (case_list [] (\<lambda>h t. [t])) xss)))) =
   length (filter P (concat xss))"
  by (induction xss) (auto split: list.splits)

lemma length_filter_transpose:
  "length (filter P (concat (transpose xss))) = length (filter P (concat xss))"
proof (induction xss rule: transpose.induct)
  case 1
  show ?case by simp
next
  case (2 xss)
  then show ?case by simp
next
  case (3 x xs xss)
  have "length (filter P (concat (transpose ((x # xs) # xss)))) =
        length (filter P (x # concat (map (case_list [] (\<lambda>h t. [h])) xss))) +
        length (filter P (concat (xs # concat (map (case_list [] (\<lambda>h t. [t])) xss))))"
    using 3 by simp
  also have "\<dots> = length (filter P (x # xs)) + length (filter P (concat xss))"
    using length_filter_heads_tails [of P xss] by simp
  finally show ?case by simp
qed

lemma count_list_length_filter: "count_list xs y = length (filter (\<lambda>x. x = y) xs)"
  by (induction xs) auto

lemma count_all_vals:
  assumes k: "k \<in> set URUTAN_SKALA"
  shows "count_list (all_vals df) (Text k) =
         length (filter (\<lambda>c. c = Text k) (concat (map snd df)))"
proof -
  have "filter (\<lambda>c. c = Text k) (filter in_URUTAN_SKALA xs) = filter (\<lambda>c. c = Text k) xs" for xs
    using k by (induction xs) auto
  then have "count_list (all_vals df) (Text k) =
      length (filter (\<lambda>c. c = Text k) (concat (transpose (map snd df))))"
    unfolding count_list_length_filter all_vals_def values_flatten_def by simp
  then show ?thesis
    by (simp only: length_filter_transpose)
qed

lemma fillna0_value_counts:
  "(case value_counts xs v of None \<Rightarrow> 0 | Some n \<Rightarrow> n) = count_list xs v"
  by (simp add: value_counts_def count_list_0_iff)

lemma dist_global_eq:
  "dist_global df =
     map (\<lambda>k. (k, length (filter (\<lambda>c. c = Text k) (concat (map snd df))))) URUTAN_SKALA"
  by (simp add: dist_global_def fillna0_def reindex_def fillna0_value_counts count_all_vals comp_def)

text \<open>
  C2. For every frame, \<^verbatim>\<open>dist_global\<close> has one entry per code, in the order SS, S, CS,
  CTS, TS, STS; the count of a code is the number of cells of the frame equal to it, 0
  when there is none; and the six counts add up to the number of cells that are in the
  scale.
\<close>

theorem dist_global_counts:
  "dist_global df =
     map (\<lambda>k. (k, length (filter (\<lambda>c. c = Text k) (concat (map snd df))))) URUTAN_SKALA
   \<and> map fst (dist_global df) = [''SS'', ''S'', ''CS'', ''CTS'', ''TS'', ''STS'']
   \<and> sum_list (map snd (dist_global df)) =
       length (filter in_URUTAN_SKALA (concat (map snd df)))"
proof -
  have s: "sum_list (map (\<lambda>k. length (filter (\<lambda>c. c = Text k) xs)) URUTAN_SKALA) =
      length (filter in_URUTAN_SKALA xs)" for xs
    by (induction xs) (auto simp: URUTAN_SKALA_def in_URUTAN_SKALA_iff)
  show ?thesis
    unfolding dist_global_eq using s [of "concat (map snd df)"]
    by (simp add: comp_def) (simp add: URUTAN_SKALA_def)
qed

section \<open>The numeric frame and the checks after loading\<close>

lemma to_numeric_replace_cell:
  "to_numeric p (replace_cell x) =
     (case x of
        Text s \<Rightarrow>
          (if s = ''SS'' then Some 6 else if s = ''S'' then Some 5
           else if s = ''CS'' then Some 4 else if s = ''CTS'' then Some 3
           else if s = ''TS'' then Some 2 else if s = ''STS'' then Some 1
           else p s)
      | Num r \<Rightarrow> Some r
      | Blank \<Rightarrow> None)"
  by (cases x) (simp_all add: SKOR_MAP_def)

text \<open>
  C1, amended. For every frame read from the sheet, the numeric frame has the columns of
  the raw frame, and each of its cells is: the score 6, 5, 4, 3, 2, 1 when the raw cell
  is the code SS, S, CS, CTS, TS, STS; for a text that is no code, the number pandas reads
  the text as, and NaN when pandas reads no number in it; the number itself when the raw
  cell is a number; NaN when the raw cell is blank.
\<close>

theorem muat_data_numeric_cells:
  "muat_data p (File (Returns df0)) =
     ([], Some (drop_Partisipan df0,
        map (\<lambda>c. (fst c,
            map (\<lambda>x. case x of
                  Text s \<Rightarrow>
                    (if s = ''SS'' then Some 6 else if s = ''S'' then Some 5
                     else if s = ''CS'' then Some 4 else if s = ''CTS'' then Some 3
                     else if s = ''TS'' then Some 2 else if s = ''STS'' then Some 1
                     else p s)
                | Num r \<Rightarrow> Some r
                | Blank \<Rightarrow> None) (snd c)))
          (drop_Partisipan df0)))"
  by (simp add: muat_data_def numeric_frame_def to_numeric_replace_cell comp_def Let_def)

text \<open>
  C1 as stated fails: in the column SS, 7 (a text), 3 (a number) the last two cells are
  no codes, and their numeric cells are 7 and 3, not NaN.
\<close>

theorem muat_data_numeric_text_counterexample:
  "muat_data decimal_text (File (Returns [(''Q1'', [Text ''SS'', Text ''7'', Num 3])])) =
     ([], Some ([(''Q1'', [Text ''SS'', Text ''7'', Num 3])], [(''Q1'', [Some 6, Some 7, Some 3])]))
   \<and> \<not> in_URUTAN_SKALA (Text ''7'') \<and> \<not> in_URUTAN_SKALA (Num 3)"
  by (simp add: muat_data_def numeric_frame_def drop_Partisipan_def SKOR_MAP_def
      decimal_text_def is_digit_def URUTAN_SKALA_def)

lemma set_drop_Partisipan: "set (drop_Partisipan df0) \<subseteq> set df0"
  by (auto simp: drop_Partisipan_def)

lemma drop_Partisipan_no_rows:
  assumes "\<forall>c\<in>set df0. snd c = []"
  shows "df_empty (drop_Partisipan df0)"
proof (cases "drop_Partisipan df0")
  case Nil
  then show ?thesis by (simp add: df_empty_def)
next
  case (Cons c cs)
  then have "c \<in> set (drop_Partisipan df0)" by simp
  then have "c \<in> set df0" using set_drop_Partisipan by blast
  then have "snd c = []" using assms by blast
  then show ?thesis using Cons by (simp add: df_empty_def nrows_def)
qed

text \<open>
  C8. A sheet with no row stops the script with the empty-data warning, and nothing after
  line 93 runs. A missing file stops it inside \<^verbatim>\<open>muat_data\<close> with the file-not-found
  error alone. A missing openpyxl and any other exception of the reader each show their
  own error, after which the empty frame that \<^verbatim>\<open>muat_data\<close> returns stops the script at
  the same check, so the warning follows the error. The script goes on only with a frame
  that has a column and a row, and then no message was shown.
\<close>

theorem load_data_halts:
  "((\<forall>c\<in>set df0. snd c = []) \<longrightarrow>
      load_data p (File (Returns df0)) = Halted [Warning_data_kosong])
   \<and> load_data p No_file = Halted [Error_file_tidak_ditemukan]
   \<and> load_data p (File Raises_ImportError) =
       Halted [Error_openpyxl_belum_terinstall, Warning_data_kosong]
   \<and> load_data p (File (Raises_Exception e)) =
       Halted [Error_gagal_memuat_data e, Warning_data_kosong]
   \<and> (load_data p f = Loaded ms df df_numeric \<longrightarrow>
        ms = [] \<and> \<not> df_empty df \<and> 0 < nrows df
        \<and> (\<exists>df0. f = File (Returns df0) \<and> df = drop_Partisipan df0))"
proof -
  have a: "(\<forall>c\<in>set df0. snd c = []) \<longrightarrow>
      load_data p (File (Returns df0)) = Halted [Warning_data_kosong]"
    by (simp add: load_data_def muat_data_def drop_Partisipan_no_rows Let_def)
  have b: "load_data p f = Loaded ms df df_numeric \<longrightarrow>
        ms = [] \<and> \<not> df_empty df \<and> 0 < nrows df
        \<and> (\<exists>df0. f = File (Returns df0) \<and> df = drop_Partisipan df0)"
    by (auto simp: load_data_def muat_data_def df_empty_def Let_def
        split: data_file.splits read_excel.splits if_splits)
  show ?thesis
    using a b by (simp add: load_data_def muat_data_def df_empty_def)
qed

text \<open>Witness for C8: a sheet with the column Q1 and no row, and one with a row.\<close>

theorem load_data_halts_witness:
  "list_all (\<lambda>c. snd c = ([] :: cell list)) [(''Q1'', [])]
   \<and> load_data decimal_text (File (Returns [(''Q1'', [])])) = Halted [Warning_data_kosong]
   \<and> load_data decimal_text (File (Returns [(''Q1'', [Text ''SS''])])) =
       Loaded [] [(''Q1'', [Text ''SS''])] [(''Q1'', [Some 6])]
   \<and> 0 < nrows [(''Q1'', [Text ''SS''])]"
proof -
  have l: "load_data decimal_text (File (Returns [(''Q1'', [Text ''SS''])])) =
       Loaded [] [(''Q1'', [Text ''SS''])] [(''Q1'', [Some 6])]"
    by (simp add: load_data_def muat_data_def drop_Partisipan_def numeric_frame_def
        df_empty_def nrows_def SKOR_MAP_def)
  show ?thesis
    using load_data_halts [of "[(''Q1'', [])]" decimal_text "''''"
        "File (Returns [(''Q1'', [Text ''SS''])])" "[]" "[(''Q1'', [Text ''SS''])]"
        "[(''Q1'', [Some 6])]"] l
    by simp
qed

section \<open>Filtering the questions\<close>

lemma numeric_frame_labels: "map fst (numeric_frame p df) = map fst df"
  by (simp add: numeric_frame_def comp_def)







section \<open>Properties of the float arithmetic\<close>

text \<open>The exponent, the rounding of the significand, and from them the relative error of
  \<open>float64\<close> and its bounds by doubles.\<close>

lemma two_powi_nat: "0 \<le> k \<Longrightarrow> (2::rat) ^ nat k = 2 powi k"
  by (simp add: power_int_def)

lemma bitlen_pos: "0 < p \<Longrightarrow> 0 < bitlen p"
  using bitlen_nonneg [of p] bitlen_eq_zero_iff [of p] by linarith

lemma of_int_bitlen_bounds:
  assumes "0 < p"
  shows "2 powi (bitlen p - 1) \<le> (of_int p :: rat)" and "(of_int p :: rat) < 2 powi bitlen p"
proof -
  have b: "0 < bitlen p" using assms by (rule bitlen_pos)
  have "2 ^ nat (bitlen p - 1) \<le> p" and "p < 2 ^ nat (bitlen p)"
    using bitlen_bounds [OF assms] by auto
  then have "(of_int (2 ^ nat (bitlen p - 1)) :: rat) \<le> of_int p"
    and "(of_int p :: rat) < of_int (2 ^ nat (bitlen p))"
    by (simp_all only: of_int_le_iff of_int_less_iff)
  then show "2 powi (bitlen p - 1) \<le> (of_int p :: rat)" and "(of_int p :: rat) < 2 powi bitlen p"
    using b by (simp_all add: two_powi_nat [symmetric])
qed

lemma ilog2_bounds:
  assumes "0 < y"
  shows "2 powi (ilog2 y) \<le> y" and "y < 2 powi (ilog2 y + 1)"
proof -
  obtain p q where pq: "quotient_of y = (p, q)" by force
  have q: "0 < q" using quotient_of_denom_pos [OF pq] .
  have y: "y = of_int p / of_int q" using quotient_of_div [OF pq] .
  have p: "0 < p" using assms y q by (simp add: zero_less_divide_iff)
  define d where "d = bitlen p - bitlen q"
  have Q: "(0::rat) < of_int q" using q by simp
  have "y < 2 powi bitlen p / 2 powi (bitlen q - 1)"
    unfolding y
    using of_int_bitlen_bounds [OF p] of_int_bitlen_bounds [OF q] Q p
    by (intro frac_less) auto
  then have up: "y < 2 powi (d + 1)"
    by (simp add: d_def power_int_diff [symmetric] algebra_simps)
  have "2 powi (bitlen p - 1) / 2 powi bitlen q < y"
    unfolding y
    using of_int_bitlen_bounds [OF p] of_int_bitlen_bounds [OF q] Q p
    by (intro frac_less2) auto
  then have lo: "2 powi (d - 1) < y"
    by (simp add: d_def power_int_diff [symmetric] algebra_simps)
  have il: "ilog2 y = (if 2 powi d \<le> y then d else d - 1)"
    by (simp add: ilog2_def pq d_def Let_def)
  show "2 powi (ilog2 y) \<le> y"
    using lo by (simp add: il)
  show "y < 2 powi (ilog2 y + 1)"
    using up by (auto simp: il not_le)
qed

lemma two_powi_mono: "a \<le> b \<Longrightarrow> (2::rat) powi a \<le> 2 powi b"
  by (rule power_int_increasing) simp_all

lemma two_powi_less_imp: "(2::rat) powi a < 2 powi b \<Longrightarrow> a < b"
  using two_powi_mono [of b a] by (cases "a < b") auto

lemma ilog2_unique:
  assumes "2 powi k \<le> y" and "y < 2 powi (k + 1)"
  shows "ilog2 y = k"
proof -
  have y: "0 < y" using assms(1) by (smt (verit) zero_less_power_int zero_less_numeral less_le_trans)
  have "2 powi k < (2::rat) powi (ilog2 y + 1)"
    using assms(1) ilog2_bounds(2) [OF y] by simp
  then have a: "k < ilog2 y + 1" by (rule two_powi_less_imp)
  have "2 powi ilog2 y < (2::rat) powi (k + 1)"
    using assms(2) ilog2_bounds(1) [OF y] by simp
  then have b: "ilog2 y < k + 1" by (rule two_powi_less_imp)
  show ?thesis using a b by simp
qed

lemma round_even_error: "\<bar>of_int (round_even x) - x\<bar> \<le> 1 / 2"
proof -
  have "of_int \<lfloor>x\<rfloor> \<le> x" and "x < of_int \<lfloor>x\<rfloor> + 1" by linarith+
  then show ?thesis
    by (auto simp: round_even_def Let_def)
qed

lemma round_even_le: "x \<le> of_int n \<Longrightarrow> round_even x \<le> n"
proof -
  assume a: "x \<le> of_int n"
  then have f: "\<lfloor>x\<rfloor> \<le> n" by (simp add: floor_le_iff)
  show ?thesis
  proof (cases "\<lfloor>x\<rfloor> = n")
    case True
    then have "x = of_int n" using a by (metis of_int_floor_le order_antisym)
    then show ?thesis by (simp add: round_even_def)
  next
    case False
    then have "\<lfloor>x\<rfloor> + 1 \<le> n" using f by simp
    then show ?thesis by (auto simp: round_even_def Let_def)
  qed
qed

lemma round_even_ge: "of_int n \<le> x \<Longrightarrow> n \<le> round_even x"
proof -
  assume "of_int n \<le> x"
  then have "n \<le> \<lfloor>x\<rfloor>" by (simp add: le_floor_iff)
  then show ?thesis by (auto simp: round_even_def Let_def)
qed

lemma float64_eq:
  "x \<noteq> 0 \<Longrightarrow>
   float64 x = of_int (round_even (x / 2 powi (ilog2 \<bar>x\<bar> - 52))) * 2 powi (ilog2 \<bar>x\<bar> - 52)"
  by (simp add: float64_def Let_def)

lemma float64_error: "\<bar>float64 x - x\<bar> \<le> \<bar>x\<bar> / 2 ^ 53"
proof (cases "x = 0")
  case True
  then show ?thesis by (simp add: float64_def)
next
  case False
  define e where "e = ilog2 \<bar>x\<bar>"
  define u :: rat where "u = 2 powi (e - 52)"
  define m where "m = round_even (x / u)"
  have u: "0 < u" by (simp add: u_def)
  have f: "float64 x = of_int m * u"
    using False by (simp add: float64_eq m_def u_def e_def)
  have "float64 x - x = u * (of_int m - x / u)"
    using u by (simp add: f algebra_simps)
  then have "\<bar>float64 x - x\<bar> = u * \<bar>of_int m - x / u\<bar>"
    using u by (simp add: abs_mult)
  also have "\<dots> \<le> u * (1 / 2)"
    using u round_even_error [of "x / u"] unfolding m_def
    by (intro mult_left_mono) auto
  also have "\<dots> = 2 powi e / 2 ^ 53"
    by (simp add: u_def power_int_diff)
  also have "\<dots> \<le> \<bar>x\<bar> / 2 ^ 53"
    using ilog2_bounds(1) [of "\<bar>x\<bar>"] False unfolding e_def
    by (intro divide_right_mono) auto
  finally show ?thesis .
qed

lemma float64_nonneg: "0 \<le> x \<Longrightarrow> 0 \<le> float64 x"
proof (cases "x = 0")
  case True
  then show ?thesis by (simp add: float64_def)
next
  case False
  assume "0 \<le> x"
  then have "of_int 0 \<le> x / 2 powi (ilog2 \<bar>x\<bar> - 52)" by simp
  then have "0 \<le> round_even (x / 2 powi (ilog2 \<bar>x\<bar> - 52))" by (rule round_even_ge)
  then show ?thesis using False by (simp add: float64_eq)
qed

lemma float64_le:
  assumes "0 < x" and "x \<le> c" and "c = of_int n * 2 powi (ilog2 x - 52)"
  shows "float64 x \<le> c"
proof -
  define u :: rat where "u = 2 powi (ilog2 x - 52)"
  have u: "0 < u" by (simp add: u_def)
  have "x / u \<le> of_int n"
    using assms(2,3) u by (simp add: u_def pos_divide_le_eq)
  then have "round_even (x / u) \<le> n" by (rule round_even_le)
  then have "of_int (round_even (x / u)) * u \<le> of_int n * u"
    using u by (intro mult_right_mono) auto
  then show ?thesis
    using assms(1,3) by (simp add: float64_eq u_def)
qed

lemma ilog2_le:
  assumes "0 < x" and "x < 2 powi k"
  shows "ilog2 x < k"
proof -
  have "2 powi ilog2 x < (2::rat) powi k"
    using ilog2_bounds(1) [OF assms(1)] assms(2) by simp
  then show ?thesis by (rule two_powi_less_imp)
qed

lemma float64_le_1:
  assumes "0 \<le> x" and "x \<le> 1"
  shows "float64 x \<le> 1"
proof (cases "x = 0")
  case True
  then show ?thesis by (simp add: float64_def)
next
  case False
  then have x: "0 < x" using assms(1) by simp
  have "x < 2 powi 1" using assms(2) by simp
  then have e: "ilog2 x < 1" using x by (intro ilog2_le)
  have "(1::rat) = of_int (2 ^ nat (52 - ilog2 x)) * 2 powi (ilog2 x - 52)"
    using e by (simp add: two_powi_nat power_int_add [symmetric])
  then show ?thesis using x assms(2) by (intro float64_le)
qed

lemma float64_le_100:
  assumes "0 \<le> x" and "x \<le> 100"
  shows "float64 x \<le> 100"
proof (cases "x = 0")
  case True
  then show ?thesis by (simp add: float64_def)
next
  case False
  then have x: "0 < x" using assms(1) by simp
  have "x < 2 powi 7" using assms(2) by simp
  then have e: "ilog2 x < 7" using x by (intro ilog2_le)
  have "(1::rat) = 2 powi (52 - ilog2 x) * 2 powi (ilog2 x - 52)"
    by (simp add: power_int_add [symmetric])
  then have "(100::rat) = of_int (100 * 2 ^ nat (52 - ilog2 x)) * 2 powi (ilog2 x - 52)"
    using e by (simp add: two_powi_nat)
  then show ?thesis using x assms(2) by (intro float64_le)
qed

lemma pct_bounds:
  assumes "a \<le> t" and "0 < t"
  shows "0 \<le> fmul (fdiv (of_nat a) (of_nat t)) 100"
    and "fmul (fdiv (of_nat a) (of_nat t)) 100 \<le> 100"
proof -
  have r: "0 \<le> (of_nat a / of_nat t :: rat)" "(of_nat a / of_nat t :: rat) \<le> 1"
    using assms by simp_all
  have q: "0 \<le> fdiv (of_nat a) (of_nat t)" "fdiv (of_nat a) (of_nat t) \<le> 1"
    unfolding fdiv_def using r by (auto intro: float64_nonneg float64_le_1)
  then have "0 \<le> fdiv (of_nat a) (of_nat t) * 100" "fdiv (of_nat a) (of_nat t) * 100 \<le> 100"
    by simp_all
  then show "0 \<le> fmul (fdiv (of_nat a) (of_nat t)) 100"
    and "fmul (fdiv (of_nat a) (of_nat t)) 100 \<le> 100"
    unfolding fmul_def by (auto intro: float64_nonneg float64_le_100)
qed

lemma pct_error:
  assumes "0 < t"
  shows "\<bar>fmul (fdiv (of_nat a) (of_nat t)) 100 - 100 * of_nat a / of_nat t\<bar>
         \<le> (of_nat a / of_nat t) * (100 * (2 / 2 ^ 53 + 1 / 2 ^ 106))"
proof -
  define r :: rat where "r = of_nat a / of_nat t"
  define q where "q = float64 r"
  define p where "p = float64 (q * 100)"
  define eps :: rat where "eps = 1 / 2 ^ 53"
  have r: "0 \<le> r" by (simp add: r_def)
  have q: "0 \<le> q" unfolding q_def using r by (rule float64_nonneg)
  have e1: "\<bar>q - r\<bar> \<le> r * eps"
    using float64_error [of r] r by (simp add: q_def eps_def)
  have e2: "\<bar>p - q * 100\<bar> \<le> q * 100 * eps"
    using float64_error [of "q * 100"] q by (simp add: p_def eps_def)
  have qr: "q \<le> r * (1 + eps)" using e1 by (simp add: algebra_simps abs_le_iff)
  have eps: "0 \<le> eps" by (simp add: eps_def)
  have "q * 100 * eps \<le> r * (1 + eps) * 100 * eps"
    using qr eps by (intro mult_right_mono) auto
  then have "\<bar>p - q * 100\<bar> \<le> r * (1 + eps) * 100 * eps" using e2 by linarith
  moreover have "\<bar>q * 100 - r * 100\<bar> \<le> r * eps * 100"
    using e1 by (simp add: abs_le_iff algebra_simps)
  ultimately have "\<bar>p - r * 100\<bar> \<le> r * (1 + eps) * 100 * eps + r * eps * 100"
    by linarith
  also have "\<dots> = r * (100 * (2 * eps + eps * eps))"
    by (simp add: algebra_simps)
  finally have "\<bar>p - r * 100\<bar> \<le> r * (100 * (2 * eps + eps * eps))" .
  then show ?thesis
    by (simp add: p_def q_def r_def eps_def fmul_def fdiv_def algebra_simps)
qed

section \<open>Sentiment percentages: the zero guard and the sum\<close>

lemma hitung_kategori_sum:
  "hitung_kategori row = (pos, neu, neg) \<Longrightarrow>
   pos + neu + neg = length (filter in_URUTAN_SKALA row)"
  using eq_sum_total [of row] by (auto simp: hitung_kategori_def)

lemma pct_eq:
  "pct (pos, neu, neg) =
     (fmul (fdiv (of_nat pos) (of_nat (replace_0_1 (pos + neu + neg)))) 100,
      fmul (fdiv (of_nat neu) (of_nat (replace_0_1 (pos + neu + neg)))) 100,
      fmul (fdiv (of_nat neg) (of_nat (replace_0_1 (pos + neu + neg)))) 100)"
  by (simp add: pct_def Let_def)




text \<open>
  C10, amended. For a question with at least one cell in the scale, each of the three
  percentages lies between 0 and 100 inclusive, and their sum is 100 up to the rounding of
  the float64 operations: it differs from 100 by at most \<open>1 / 2 ^ 45\<close>.
\<close>

theorem pct_sum_bounds:
  assumes "list_ex in_URUTAN_SKALA row"
  shows "case pct (hitung_kategori row) of (pct_positif, pct_netral, pct_negatif) \<Rightarrow>
      0 \<le> pct_positif \<and> pct_positif \<le> 100
      \<and> 0 \<le> pct_netral \<and> pct_netral \<le> 100
      \<and> 0 \<le> pct_negatif \<and> pct_negatif \<le> 100
      \<and> \<bar>pct_positif + pct_netral + pct_negatif - 100\<bar> \<le> 1 / 2 ^ 45"
proof -
  obtain pos neu neg where h: "hitung_kategori row = (pos, neu, neg)"
    by (cases "hitung_kategori row")
  define t where "t = pos + neu + neg"
  have "filter in_URUTAN_SKALA row \<noteq> []"
    using assms by (simp add: filter_empty_conv list_ex_iff)
  then have t: "0 < t"
    using hitung_kategori_sum [OF h] by (simp add: t_def)
  then have r: "replace_0_1 (pos + neu + neg) = t"
    by (simp add: replace_0_1_def t_def)
  define T :: rat where "T = of_nat t"
  have T: "0 < T" using t by (simp add: T_def)
  define c :: rat where "c = 100 * (2 / 2 ^ 53 + 1 / 2 ^ 106)"
  define pp where "pp = fmul (fdiv (of_nat pos) (of_nat t)) 100"
  define pn where "pn = fmul (fdiv (of_nat neu) (of_nat t)) 100"
  define pg where "pg = fmul (fdiv (of_nat neg) (of_nat t)) 100"
  have le: "pos \<le> t" "neu \<le> t" "neg \<le> t" by (simp_all add: t_def)
  have b: "0 \<le> pp" "pp \<le> 100" "0 \<le> pn" "pn \<le> 100" "0 \<le> pg" "pg \<le> 100"
    unfolding pp_def pn_def pg_def using le t by (auto intro: pct_bounds)
  have e1: "\<bar>pp - 100 * of_nat pos / T\<bar> \<le> (of_nat pos / T) * c"
    unfolding pp_def T_def c_def using t by (rule pct_error)
  have e2: "\<bar>pn - 100 * of_nat neu / T\<bar> \<le> (of_nat neu / T) * c"
    unfolding pn_def T_def c_def using t by (rule pct_error)
  have e3: "\<bar>pg - 100 * of_nat neg / T\<bar> \<le> (of_nat neg / T) * c"
    unfolding pg_def T_def c_def using t by (rule pct_error)
  have s: "of_nat pos + of_nat neu + of_nat neg = T"
    by (simp add: T_def t_def)
  have "100 * of_nat pos / T + 100 * of_nat neu / T + 100 * of_nat neg / T =
        100 * (of_nat pos + of_nat neu + of_nat neg) / T"
    by (simp add: add_divide_distrib distrib_left)
  also have "\<dots> = 100" using T by (simp add: s)
  finally have hundred:
    "100 * of_nat pos / T + 100 * of_nat neu / T + 100 * of_nat neg / T = 100" .
  have "(of_nat pos / T) * c + (of_nat neu / T) * c + (of_nat neg / T) * c =
        ((of_nat pos + of_nat neu + of_nat neg) / T) * c"
    by (simp add: add_divide_distrib distrib_right)
  also have "\<dots> = c" using T by (simp add: s)
  finally have cs: "(of_nat pos / T) * c + (of_nat neu / T) * c + (of_nat neg / T) * c = c" .
  have "\<bar>pp + pn + pg - 100\<bar> \<le> c"
    using e1 e2 e3 hundred cs by linarith
  moreover have "c \<le> 1 / 2 ^ 45" by (simp add: c_def)
  ultimately have "\<bar>pp + pn + pg - 100\<bar> \<le> 1 / 2 ^ 45" by linarith
  then show ?thesis
    using b by (simp add: h pct_eq r pp_def pn_def pg_def)
qed

text \<open>Witness for C10: a column with one SS, one CS, one TS and a blank.\<close>

theorem pct_sum_bounds_witness:
  "list_ex in_URUTAN_SKALA [Text ''SS'', Text ''CS'', Text ''TS'', Blank]
   \<and> pct (hitung_kategori [Text ''SS'', Text ''CS'', Text ''TS'', Blank]) =
       (2345624805922133 / 70368744177664, 2345624805922133 / 70368744177664,
        2345624805922133 / 70368744177664)
   \<and> \<bar>2345624805922133 / 70368744177664 + 2345624805922133 / 70368744177664
        + 2345624805922133 / 70368744177664 - (100::rat)\<bar> \<le> 1 / 2 ^ 45"
proof -
  have h: "list_ex in_URUTAN_SKALA [Text ''SS'', Text ''CS'', Text ''TS'', Blank]"
    by (simp add: URUTAN_SKALA_def)
  have p: "pct (hitung_kategori [Text ''SS'', Text ''CS'', Text ''TS'', Blank]) =
       (2345624805922133 / 70368744177664, 2345624805922133 / 70368744177664,
        2345624805922133 / 70368744177664)"
    by code_simp
  show ?thesis
    using h p pct_sum_bounds [OF h] by simp
qed

text \<open>
  C10 as stated fails: for a column with one SS, one CS and one TS each percentage is the
  double \<open>33.33333333333333\<close>, which is less than \<open>100 / 3\<close>, and the three do not
  add up to 100.
\<close>

theorem pct_sum_not_100_counterexample:
  "list_ex in_URUTAN_SKALA [Text ''SS'', Text ''CS'', Text ''TS'']
   \<and> pct (hitung_kategori [Text ''SS'', Text ''CS'', Text ''TS'']) =
       (2345624805922133 / 70368744177664, 2345624805922133 / 70368744177664,
        2345624805922133 / 70368744177664)
   \<and> 2345624805922133 / 70368744177664 + 2345624805922133 / 70368744177664
        + 2345624805922133 / 70368744177664 \<noteq> (100::rat)"
proof -
  have h: "list_ex in_URUTAN_SKALA [Text ''SS'', Text ''CS'', Text ''TS'']"
    by (simp add: URUTAN_SKALA_def)
  have p: "pct (hitung_kategori [Text ''SS'', Text ''CS'', Text ''TS'']) =
       (2345624805922133 / 70368744177664, 2345624805922133 / 70368744177664,
        2345624805922133 / 70368744177664)"
    by code_simp
  show ?thesis using h p by simp
qed

section \<open>Mean score per question\<close>





section \<open>Best and worst question\<close>













end
